theory Spec2Isabelle
  imports Complex_Main "HOL-Library.Log_Nat"
begin

section \<open>Python values, exceptions and numpy arrays\<close>

text \<open>
  The exceptions that \<^verbatim>\<open>datarecorder.py\<close> can raise on the paths modelled here.
  \<open>KeyError\<close> carries the missing key.
\<close>

datatype py_error =
  AssertionError | KeyError string | TypeError | ValueError | IndexError | OverflowError

text \<open>
  A numpy array is kept together with its shape: \<open>Arr1 xs\<close> is one-dimensional with
  shape \<open>(length xs,)\<close>, \<open>Arr2 C T rows\<close> is two-dimensional with shape \<open>(C, T)\<close>
  and row-major contents. The shape is stored because a list of rows alone cannot tell
  \<open>(0, T)\<close> from \<open>(0, 0)\<close>. Sample values are floats; they are only copied and
  compared with zero, so they are modelled as reals.
\<close>

datatype ndarray = Arr1 "real list" | Arr2 nat nat "real list list"

fun wf_array :: "ndarray \<Rightarrow> bool" where
  "wf_array (Arr1 xs) = True"
| "wf_array (Arr2 C T rows) = (length rows = C \<and> (\<forall>r \<in> set rows. length r = T))"

text \<open>
  \<^verbatim>\<open>np.array(samples)\<close> on a list of lists of floats: the empty list gives a
  one-dimensional array of shape \<open>(0,)\<close>, a rectangular list of \<open>n\<close> rows of
  length \<open>m\<close> gives shape \<open>(n, m)\<close>, and a ragged list is refused by numpy
  (\<open>ValueError\<close>, inhomogeneous shape).
\<close>

fun np_array :: "real list list \<Rightarrow> py_error + ndarray" where
  "np_array [] = Inr (Arr1 [])"
| "np_array (r # rs) =
     (if \<forall>x \<in> set rs. length x = length r
      then Inr (Arr2 (Suc (length rs)) (length r) (r # rs))
      else Inl ValueError)"

text \<open>The attribute \<^verbatim>\<open>.T\<close>: a one-dimensional array is its own transpose.\<close>

fun np_transpose :: "ndarray \<Rightarrow> ndarray" where
  "np_transpose (Arr1 xs) = Arr1 xs"
| "np_transpose (Arr2 n m rows) = Arr2 m n (map (\<lambda>j. map (\<lambda>row. row ! j) rows) [0..<m])"

text \<open>
  \<^verbatim>\<open>np.pad(samples, ((0, 0), (0, n)), 'constant')\<close>: \<open>n\<close> zeros are appended to
  every row.
\<close>

definition np_pad_right :: "nat \<Rightarrow> real list list \<Rightarrow> real list list" where
  "np_pad_right n rows = map (\<lambda>r. r @ replicate n 0) rows"

text \<open>
  The Python slice \<^verbatim>\<open>xs[:k]\<close>: a negative \<open>k\<close> counts from the end, and the slice
  is empty when that falls before the start.
\<close>

definition py_slice_to :: "int \<Rightarrow> 'a list \<Rightarrow> 'a list" where
  "py_slice_to k xs = (if 0 \<le> k then take (nat k) xs else take (length xs - nat (- k)) xs)"

text \<open>\<^verbatim>\<open>samples[:, :k]\<close> on an array of shape \<open>(C, T)\<close>.\<close>

definition slice_cols :: "int \<Rightarrow> nat \<Rightarrow> nat \<Rightarrow> real list list \<Rightarrow> ndarray" where
  "slice_cols k C T rows =
     Arr2 C (length (py_slice_to k [0..<T])) (map (py_slice_to k) rows)"

section \<open>Double-precision arithmetic\<close>

text \<open>
  A Python float is an IEEE 754 double. A finite double is modelled as the real number it
  denotes, and an operation rounds its exact result to the nearest double, ties to the
  even significand. \<open>binary_exponent x\<close> is the exponent of the binade of a positive
  \<open>x\<close>, that is \<open>\<lfloor>log\<^sub>2 x\<rfloor>\<close>, computed on integers.
\<close>

definition binary_exponent :: "real \<Rightarrow> int" where
  "binary_exponent x =
     (if 1 \<le> x then bitlen \<lfloor>x\<rfloor> - 1 else - bitlen (\<lceil>1 / x\<rceil> - 1))"

text \<open>Rounding to the nearest integer, a tie going to the even one.\<close>

definition round_half_even :: "real \<Rightarrow> int" where
  "round_half_even q =
     (if q - of_int \<lfloor>q\<rfloor> < 1 / 2 then \<lfloor>q\<rfloor>
      else if 1 / 2 < q - of_int \<lfloor>q\<rfloor> then \<lfloor>q\<rfloor> + 1
      else if even \<lfloor>q\<rfloor> then \<lfloor>q\<rfloor> else \<lfloor>q\<rfloor> + 1)"

text \<open>
  \<open>double_round x\<close> is the double nearest to the real \<open>x\<close>: the significand has 53
  bits, so the spacing in the binade of exponent \<open>e\<close> is \<open>2 powi (e - 52)\<close>; below
  \<open>2 powi (- 1022)\<close> the spacing stays \<open>2 powi (- 1074)\<close> (subnormal numbers, and zero
  on underflow); a result of magnitude \<open>2 powi 1024\<close> or more is an infinity, which is
  \<open>None\<close> here. The rounded magnitude \<open>n * 2 powi (e - 52)\<close> reaches \<open>2 powi 1024\<close>
  exactly when \<open>1024 \<le> e\<close>, or \<open>e = 1023\<close> and the significand was rounded up to
  \<open>2 ^ 53\<close> (lemma \<open>double_round_overflow\<close>), so the test is written on the exponent.
  This is also the double that a decimal literal denotes.
\<close>

definition double_round :: "real \<Rightarrow> real option" where
  "double_round x =
     (if x = 0 then Some 0
      else
        let e = max (binary_exponent \<bar>x\<bar>) (- 1022);
            u = 2 powi (e - 52);
            n = round_half_even (\<bar>x\<bar> / u);
            r = of_int n * u
        in if 1024 \<le> e \<or> (e = 1023 \<and> 2 ^ 53 \<le> n) then None
           else Some (if x < 0 then - r else r))"

text \<open>The product \<^verbatim>\<open>a * b\<close> of two doubles: the exact product, rounded.\<close>

definition double_mul :: "real \<Rightarrow> real \<Rightarrow> real option" where
  "double_mul a b = double_round (a * b)"

section \<open>The normaliser: \<^verbatim>\<open>_padtrim_sample\<close>\<close>

text \<open>
  Python's \<^verbatim>\<open>int(x)\<close> on a finite float truncates towards zero; on an infinity it
  raises \<open>OverflowError\<close>.
\<close>

definition py_int :: "real \<Rightarrow> int" where
  "py_int x = (if 0 \<le> x then \<lfloor>x\<rfloor> else \<lceil>x\<rceil>)"

text \<open>
  \<^verbatim>\<open>target_length = int(sampling_frequency * duration)\<close>, both operands being doubles
  (an integer sampling frequency below \<open>2 ^ 53\<close> is converted without rounding).
\<close>

definition target_length :: "real \<Rightarrow> real \<Rightarrow> py_error + int" where
  "target_length sampling_frequency duration =
     (case double_mul sampling_frequency duration of
        None \<Rightarrow> Inl OverflowError
      | Some p \<Rightarrow> Inr (py_int p))"

text \<open>
  \<^verbatim>\<open>C, T = samples.shape\<close> raises \<open>ValueError\<close> unless the shape has exactly two
  entries. Then the target length is computed, and the array is padded when
  \<open>T < target_length\<close> and sliced otherwise.
\<close>

fun padtrim_sample :: "ndarray \<Rightarrow> real \<Rightarrow> real \<Rightarrow> py_error + ndarray" where
  "padtrim_sample (Arr1 xs) sampling_frequency duration = Inl ValueError"
| "padtrim_sample (Arr2 C T rows) sampling_frequency duration =
     (case target_length sampling_frequency duration of
        Inl e \<Rightarrow> Inl e
      | Inr tgt \<Rightarrow>
          if int T < tgt
          then Inr (Arr2 C (T + nat (tgt - int T)) (np_pad_right (nat (tgt - int T)) rows))
          else Inr (slice_cols tgt C T rows))"

section \<open>Metadata values\<close>

text \<open>
  The values a caller can put into the \<^verbatim>\<open>additional_variables\<close> dictionary:
  \<open>None\<close>, booleans, integers, strings and lists. Floats, tuples and other objects are
  outside this model.
\<close>

datatype pyval = PNone | PBool bool | PInt int | PStr string | PList "pyval list"

text \<open>
  \<^verbatim>\<open>isinstance(v, collections.abc.Iterable)\<close>: a Python string is iterable, as a
  list is; \<open>None\<close>, booleans and integers are not.
\<close>

fun is_iterable :: "pyval \<Rightarrow> bool" where
  "is_iterable (PStr s) = True"
| "is_iterable (PList xs) = True"
| "is_iterable v = False"

text \<open>\<^verbatim>\<open>len(v)\<close>: the number of characters of a string, of elements of a list.\<close>

fun py_len :: "pyval \<Rightarrow> py_error + int" where
  "py_len (PStr s) = Inr (int (length s))"
| "py_len (PList xs) = Inr (int (length xs))"
| "py_len v = Inl TypeError"

text \<open>
  The elements that \<^verbatim>\<open>list.extend(v)\<close> appends: the elements of a list, the
  one-character strings of a string.
\<close>

fun py_iter :: "pyval \<Rightarrow> py_error + pyval list" where
  "py_iter (PStr s) = Inr (map (\<lambda>c. PStr [c]) s)"
| "py_iter (PList xs) = Inr xs"
| "py_iter v = Inl TypeError"

text \<open>
  \<^verbatim>\<open>v * n\<close> for an integer \<open>n\<close>: integer multiplication (a boolean counts as 0 or
  1), repetition of a string or a list, and \<open>TypeError\<close> on \<open>None\<close>.
\<close>

fun py_mul :: "pyval \<Rightarrow> int \<Rightarrow> py_error + pyval" where
  "py_mul PNone n = Inl TypeError"
| "py_mul (PBool b) n = Inr (PInt ((if b then 1 else 0) * n))"
| "py_mul (PInt a) n = Inr (PInt (a * n))"
| "py_mul (PStr s) n = Inr (PStr (concat (replicate (nat n) s)))"
| "py_mul (PList xs) n = Inr (PList (concat (replicate (nat n) xs)))"

section \<open>The recorder\<close>

text \<open>
  \<^verbatim>\<open>self.samples\<close> maps a field name to a list. The list under \<open>recordings\<close>
  receives the normalised windows, the other lists receive metadata values; one item
  type covers both, since a metadata key may also be called \<open>recordings\<close>.

  The four overridable hooks are no-ops in the class as written. Each call is logged in
  \<open>events\<close>, so that which hooks ran, and in which order, can be stated. What
  \<^verbatim>\<open>print\<close> writes goes to \<open>stdout\<close>.
\<close>

datatype item = Window ndarray | Meta pyval

datatype hook = SignalStartRecording | SignalEndRecording | PresentStimuli | EndStimuli

datatype outcome = Returned | Raised py_error

record recorder =
  sampling_frequency :: real
  samples :: "string \<rightharpoonup> item list"
  events :: "hook list"
  stdout :: "string list"

text \<open>
  A stream argument is what \<^verbatim>\<open>resolve_byprop\<close> returns: a list of stream
  descriptions, which are opaque here. The metadata dictionary is an association list in
  insertion order, with distinct keys.
\<close>

type_synonym stream = "nat list"

type_synonym variables = "(string \<times> pyval) list"

text \<open>\<^verbatim>\<open>__init__\<close>.\<close>

definition init :: "real \<Rightarrow> string list \<Rightarrow> recorder" where
  "init sf additional_variables =
     \<lparr>sampling_frequency = sf,
      samples = fold (\<lambda>variable m. m(variable \<mapsto> [])) additional_variables
                  [''recordings'' \<mapsto> []],
      events = [],
      stdout = []\<rparr>"

text \<open>
  \<^verbatim>\<open>_initiate_stream\<close>: \<open>discovered\<close> is the result of the discovery call
  \<^verbatim>\<open>resolve_byprop('type', 'EEG', timeout=timeout)\<close>.
\<close>

definition initiate_stream :: "stream \<Rightarrow> stream option" where
  "initiate_stream discovered = (if discovered = [] then None else Some discovered)"

text \<open>
  \<^verbatim>\<open>_record_eeg_sample\<close>: \<open>pulled\<close> is the list of samples that
  \<^verbatim>\<open>inlet.pull_sample()\<close> returned while the capture window was open, one vector
  of channel values per sample. How many arrive depends on wall-clock time, which is not
  modelled; the loop runs zero times when \<open>duration\<close> has already elapsed at its first
  test. \<^verbatim>\<open>stream[0]\<close> raises \<open>IndexError\<close> on an empty list.
  \<^verbatim>\<open>np.ascontiguousarray\<close> changes the memory layout only.
\<close>

definition record_eeg_sample :: "stream \<Rightarrow> real list list \<Rightarrow> py_error + ndarray" where
  "record_eeg_sample stream pulled =
     (case stream of
        [] \<Rightarrow> Inl IndexError
      | info # _ \<Rightarrow>
          (case np_array pulled of
             Inl e \<Rightarrow> Inl e
           | Inr a \<Rightarrow> Inr (np_transpose a)))"

text \<open>
  \<^verbatim>\<open>record_one_iteration\<close>. \<^verbatim>\<open>time.sleep\<close> raises \<open>ValueError\<close> on a negative
  length. An exception leaves the hooks already called in the log.
\<close>

definition record_one_iteration ::
  "recorder \<Rightarrow> stream \<Rightarrow> real \<Rightarrow> real \<Rightarrow> real \<Rightarrow> real list list
     \<Rightarrow> recorder \<times> (py_error + ndarray)" where
  "record_one_iteration self stream duration rest_duration sf pulled =
     (if rest_duration < 0 then (self, Inl ValueError)
      else
        let s1 = self\<lparr>events := events self @ [PresentStimuli]\<rparr>
        in case record_eeg_sample stream pulled of
             Inl e \<Rightarrow> (s1, Inl e)
           | Inr sample \<Rightarrow>
               (s1\<lparr>events := events s1 @ [EndStimuli]\<rparr>, padtrim_sample sample sf duration))"

text \<open>
  The loop \<^verbatim>\<open>for i in range(iterations)\<close> of \<^verbatim>\<open>record_loop\<close>, over the list of
  trial indices; \<open>pull i\<close> is what trial \<open>i\<close> pulls from the stream.
\<close>

fun record_loop_trials ::
  "recorder \<Rightarrow> stream \<Rightarrow> real \<Rightarrow> real \<Rightarrow> (nat \<Rightarrow> real list list) \<Rightarrow> nat list
     \<Rightarrow> recorder \<times> outcome" where
  "record_loop_trials self stream duration rest_duration pull [] = (self, Returned)"
| "record_loop_trials self stream duration rest_duration pull (i # rest) =
     (case record_one_iteration self stream duration rest_duration
             (sampling_frequency self) (pull i) of
        (s1, Inl e) \<Rightarrow> (s1, Raised e)
      | (s1, Inr sample) \<Rightarrow>
          (case samples s1 ''recordings'' of
             None \<Rightarrow> (s1, Raised (KeyError ''recordings''))
           | Some rs \<Rightarrow>
               record_loop_trials
                 (s1\<lparr>samples := (samples s1)(''recordings'' \<mapsto> rs @ [Window sample])\<rparr>)
                 stream duration rest_duration pull rest))"

text \<open>
  The validation loop of \<^verbatim>\<open>record_loop\<close>: an iterable value must have
  \<open>iterations\<close> elements, or the \<^verbatim>\<open>assert\<close> fails (assertions are taken to be
  enabled); the keys are sorted into \<open>list_variables\<close> and \<open>object_variables\<close>.
\<close>

fun validate_variables ::
  "variables \<Rightarrow> int \<Rightarrow> string list \<Rightarrow> string list \<Rightarrow> py_error + (string list \<times> string list)" where
  "validate_variables [] iterations list_variables object_variables =
     Inr (list_variables, object_variables)"
| "validate_variables ((key, v) # rest) iterations list_variables object_variables =
     (if is_iterable v
      then (case py_len v of
              Inl e \<Rightarrow> Inl e
            | Inr n \<Rightarrow>
                if n = iterations
                then validate_variables rest iterations (list_variables @ [key]) object_variables
                else Inl AssertionError)
      else validate_variables rest iterations list_variables (object_variables @ [key]))"

text \<open>
  \<^verbatim>\<open>for key in list_variables: self.samples[key].extend(additional_variables[key])\<close>.
  The lookup \<^verbatim>\<open>self.samples[key]\<close> comes first and raises \<open>KeyError\<close> for a
  field that the recorder does not have.
\<close>

fun extend_list_variables :: "recorder \<Rightarrow> variables \<Rightarrow> string list \<Rightarrow> recorder \<times> outcome" where
  "extend_list_variables self additional_variables [] = (self, Returned)"
| "extend_list_variables self additional_variables (key # rest) =
     (case samples self key of
        None \<Rightarrow> (self, Raised (KeyError key))
      | Some xs \<Rightarrow>
          (case map_of additional_variables key of
             None \<Rightarrow> (self, Raised (KeyError key))
           | Some v \<Rightarrow>
               (case py_iter v of
                  Inl e \<Rightarrow> (self, Raised e)
                | Inr vs \<Rightarrow>
                    extend_list_variables
                      (self\<lparr>samples := (samples self)(key \<mapsto> xs @ map Meta vs)\<rparr>)
                      additional_variables rest)))"

text \<open>
  \<^verbatim>\<open>for key in object_variables:
    self.samples[key].extend([additional_variables[key] * iterations])\<close>.
  The argument is a list of one element, the product of the value and \<open>iterations\<close>.
\<close>

fun extend_object_variables ::
  "recorder \<Rightarrow> variables \<Rightarrow> int \<Rightarrow> string list \<Rightarrow> recorder \<times> outcome" where
  "extend_object_variables self additional_variables iterations [] = (self, Returned)"
| "extend_object_variables self additional_variables iterations (key # rest) =
     (case samples self key of
        None \<Rightarrow> (self, Raised (KeyError key))
      | Some xs \<Rightarrow>
          (case map_of additional_variables key of
             None \<Rightarrow> (self, Raised (KeyError key))
           | Some v \<Rightarrow>
               (case py_mul v iterations of
                  Inl e \<Rightarrow> (self, Raised e)
                | Inr w \<Rightarrow>
                    extend_object_variables
                      (self\<lparr>samples := (samples self)(key \<mapsto> xs @ [Meta w])\<rparr>)
                      additional_variables iterations rest)))"

text \<open>
  The first lines of \<^verbatim>\<open>record_loop\<close>: a stream that the caller passes is used
  as it is, and \<^verbatim>\<open>_initiate_stream\<close> is asked only when the argument is
  \<open>None\<close>.
\<close>

definition bind_stream :: "stream option \<Rightarrow> stream \<Rightarrow> stream option" where
  "bind_stream stream discovered =
     (case stream of None \<Rightarrow> initiate_stream discovered | Some st \<Rightarrow> Some st)"

text \<open>
  \<^verbatim>\<open>record_loop\<close>. The result is the recorder as the call leaves it, also when
  the call raises, and how the call ended.
\<close>

definition record_loop ::
  "recorder \<Rightarrow> stream option \<Rightarrow> stream \<Rightarrow> int \<Rightarrow> real \<Rightarrow> real \<Rightarrow> variables
     \<Rightarrow> (nat \<Rightarrow> real list list) \<Rightarrow> recorder \<times> outcome" where
  "record_loop self stream discovered iterations duration rest_duration additional_variables pull =
     (case bind_stream stream discovered of
        None \<Rightarrow> (self\<lparr>stdout := stdout self @ [''No EEG stream was found.'']\<rparr>, Returned)
      | Some st \<Rightarrow>
          (case validate_variables additional_variables iterations [] [] of
             Inl e \<Rightarrow> (self, Raised e)
           | Inr (list_variables, object_variables) \<Rightarrow>
               (case record_loop_trials (self\<lparr>events := events self @ [SignalStartRecording]\<rparr>)
                       st duration rest_duration pull [0..<nat iterations] of
                  (s2, Raised e) \<Rightarrow> (s2, Raised e)
                | (s2, Returned) \<Rightarrow>
                    (case extend_list_variables (s2\<lparr>events := events s2 @ [SignalEndRecording]\<rparr>)
                            additional_variables list_variables of
                       (s4, Raised e) \<Rightarrow> (s4, Raised e)
                     | (s4, Returned) \<Rightarrow>
                         extend_object_variables s4 additional_variables iterations
                           object_variables))))"

text \<open>
  A capture that holds at least one sample, all samples having the same number of channel
  values (the stream's channel count).
\<close>

definition good_capture :: "real list list \<Rightarrow> bool" where
  "good_capture pulled =
     (pulled \<noteq> [] \<and> (\<forall>x \<in> set pulled. length x = length (hd pulled)))"

section \<open>Properties of double rounding\<close>

lemma binary_exponent_bounds:
  assumes "0 < x"
  shows "2 powi (binary_exponent x) \<le> x \<and> x < 2 powi (binary_exponent x + 1)"
proof (cases "1 \<le> x")
  case True
  let ?m = "\<lfloor>x\<rfloor>"
  from True have m: "0 < ?m" by linarith
  note b = bitlen_bounds [OF m]
  have k: "1 \<le> bitlen ?m" using m by (simp add: bitlen_alt_def)
  have e: "binary_exponent x = bitlen ?m - 1" using True by (simp add: binary_exponent_def)
  have "(2::real) powi (bitlen ?m - 1) = of_int (2 ^ nat (bitlen ?m - 1))"
    using k by (simp add: power_int_nonneg_exp)
  also have "\<dots> \<le> of_int ?m" using b by (simp only: of_int_le_iff)
  also have "\<dots> \<le> x" by simp
  finally have lo: "2 powi (bitlen ?m - 1) \<le> x" .
  have "?m + 1 \<le> 2 ^ nat (bitlen ?m)" using b by linarith
  then have "of_int (?m + 1) \<le> (of_int (2 ^ nat (bitlen ?m)) :: real)"
    by (simp only: of_int_le_iff)
  moreover have "x < of_int (?m + 1)" by linarith
  ultimately have "x < of_int (2 ^ nat (bitlen ?m))" by linarith
  also have "\<dots> = 2 powi (bitlen ?m)"
    using k by (simp add: power_int_nonneg_exp)
  finally have hi: "x < 2 powi (bitlen ?m - 1 + 1)" by simp
  from lo hi show ?thesis unfolding e by blast
next
  case False
  let ?m = "\<lceil>1 / x\<rceil>"
  from False assms have inv: "1 < 1 / x" by simp
  then have m: "0 < ?m - 1" by linarith
  note b = bitlen_bounds [OF m]
  have k: "1 \<le> bitlen (?m - 1)" using m by (simp add: bitlen_alt_def)
  let ?k = "bitlen (?m - 1)"
  have e: "binary_exponent x = - ?k" using False by (simp add: binary_exponent_def)
  have p: "(2::real) powi ?k = of_int (2 ^ nat ?k)"
    using k by (simp add: power_int_nonneg_exp)
  have p1: "(2::real) powi (?k - 1) = of_int (2 ^ nat (?k - 1))"
    using k by (simp add: power_int_nonneg_exp)
  have "?m \<le> 2 ^ nat ?k" using b by linarith
  then have "of_int ?m \<le> (of_int (2 ^ nat ?k) :: real)" by (simp only: of_int_le_iff)
  moreover have "1 / x \<le> of_int ?m" by linarith
  ultimately have "1 / x \<le> 2 powi ?k" unfolding p by linarith
  then have "1 \<le> 2 powi ?k * x" using assms by (simp add: field_simps)
  then have lo: "2 powi (- ?k) \<le> x"
    by (simp add: power_int_minus field_simps)
  have "(of_int (2 ^ nat (?k - 1)) :: real) \<le> of_int (?m - 1)"
    using b by (simp only: of_int_le_iff)
  moreover have "of_int (?m - 1) < 1 / x" by linarith
  ultimately have "2 powi (?k - 1) < 1 / x" unfolding p1 by linarith
  moreover define a :: real where "a = 2 powi (?k - 1)"
  ultimately have "a < 1 / x" by simp
  moreover have a: "0 < a" by (simp add: a_def)
  ultimately have "x < inverse a" using assms by (simp add: field_simps)
  then have "x < 2 powi (- (?k - 1))"
    unfolding a_def by (simp only: power_int_minus)
  moreover have "- (?k - 1) = - ?k + 1" by simp
  ultimately have hi: "x < 2 powi (- ?k + 1)" by (simp only:)
  from lo hi show ?thesis unfolding e by blast
qed

lemma round_half_even_bounds:
  "\<lfloor>q\<rfloor> \<le> round_half_even q \<and> round_half_even q \<le> \<lfloor>q\<rfloor> + 1"
  by (simp add: round_half_even_def)

lemma round_half_even_nonneg: "0 \<le> q \<Longrightarrow> 0 \<le> round_half_even q"
  using round_half_even_bounds [of q] by (smt (verit) zero_le_floor)

lemma round_half_even_le: "q < of_int N \<Longrightarrow> round_half_even q \<le> N"
  using round_half_even_bounds [of q] by (smt (verit) floor_less_iff)

lemma round_half_even_ge: "of_int N \<le> q \<Longrightarrow> N \<le> round_half_even q"
  using round_half_even_bounds [of q] by (smt (verit) le_floor_iff)

lemma double_round_nonneg:
  assumes "0 \<le> x" and "double_round x = Some p"
  shows "0 \<le> p"
proof (cases "x = 0")
  case True
  with assms show ?thesis by (simp add: double_round_def)
next
  case False
  define u :: real where "u = 2 powi (max (binary_exponent \<bar>x\<bar>) (- 1022) - 52)"
  have u: "0 < u" by (simp add: u_def)
  from False assms(1) have "0 \<le> \<bar>x\<bar> / u" using u by simp
  then have "0 \<le> round_half_even (\<bar>x\<bar> / u)" by (rule round_half_even_nonneg)
  then have "0 \<le> of_int (round_half_even (\<bar>x\<bar> / u)) * u" using u by simp
  moreover from assms False have "p = of_int (round_half_even (\<bar>x\<bar> / u)) * u"
    by (auto simp: double_round_def Let_def u_def split: if_splits)
  ultimately show ?thesis by simp
qed

lemma pow2_spacing: "(2::real) powi (k + (e - 52)) = 2 powi k * 2 powi (e - 52)"
  by (rule power_int_add) simp

lemma double_round_magnitude:
  assumes "0 < a"
  defines "e \<equiv> max (binary_exponent a) (- 1022)"
  defines "n \<equiv> round_half_even (a / 2 powi (e - 52))"
  shows "(1024 \<le> e \<or> (e = 1023 \<and> 2 ^ 53 \<le> n))
           \<longleftrightarrow> 2 powi 1024 \<le> of_int n * (2::real) powi (e - 52)"
proof -
  define e0 where "e0 = binary_exponent a"
  define u :: real where "u = 2 powi (e - 52)"
  define c :: real where "c = 2 powi 53"
  define b :: real where "b = 2 powi 52"
  have u: "0 < u" by (simp add: u_def)
  have c: "c = of_int (2 ^ 53)" by (simp add: c_def)
  have b: "b = of_int (2 ^ 52)" by (simp add: b_def)
  have e: "e = max e0 (- 1022)" by (simp add: e_def e0_def)
  have n: "n = round_half_even (a / u)" by (simp add: n_def u_def)
  from binary_exponent_bounds [OF assms(1)]
  have lo: "2 powi e0 \<le> a" and hi: "a < 2 powi (e0 + 1)" by (simp_all add: e0_def)
  have cu: "c * u = 2 powi (e + 1)"
  proof -
    have "53 + (e - 52) = e + 1" by simp
    with pow2_spacing [of 53 e] show ?thesis
      unfolding c_def u_def by (simp only:)
  qed
  have bu: "b * u = 2 powi e"
  proof -
    have "52 + (e - 52) = e" by simp
    with pow2_spacing [of 52 e] show ?thesis
      unfolding b_def u_def by (simp only:)
  qed
  have n_le: "of_int n \<le> c"
  proof -
    have "(2::real) powi (e0 + 1) \<le> 2 powi (e + 1)"
      by (rule power_int_increasing) (simp_all add: e)
    with hi have "a < c * u" unfolding cu by linarith
    then have "a / u < of_int (2 ^ 53)" using u unfolding c [symmetric] by (simp add: field_simps)
    then have "n \<le> 2 ^ 53" unfolding n by (rule round_half_even_le)
    then show ?thesis unfolding c by (simp only: of_int_le_iff)
  qed
  have n_ge: "b \<le> of_int n" if "- 1022 \<le> e0"
  proof -
    from that have "e = e0" by (simp add: e)
    with lo have "b * u \<le> a" unfolding bu by simp
    then have "of_int (2 ^ 52) \<le> a / u" using u unfolding b [symmetric] by (simp add: field_simps)
    then have "2 ^ 52 \<le> n" unfolding n by (rule round_half_even_ge)
    then show ?thesis unfolding b by (simp only: of_int_le_iff)
  qed
  have r_le: "of_int n * u \<le> 2 powi (e + 1)"
    unfolding cu [symmetric] using n_le u by (simp add: mult_right_mono)
  show ?thesis
  proof (cases "1024 \<le> e")
    case True
    then have "- 1022 \<le> e0" by (simp add: e)
    then have "b * u \<le> of_int n * u" using n_ge u by (simp add: mult_right_mono)
    moreover have "(2::real) powi 1024 \<le> 2 powi e"
      using True by (intro power_int_increasing) simp_all
    ultimately have "2 powi 1024 \<le> of_int n * u" unfolding bu by linarith
    with True show ?thesis unfolding u_def by blast
  next
    case False
    show ?thesis
    proof (cases "e = 1023")
      case True
      have u1024: "c * u = 2 powi 1024" unfolding cu True by simp
      have "2 powi 1024 \<le> of_int n * u \<longleftrightarrow> c \<le> of_int n"
        unfolding u1024 [symmetric] using u by simp
      also have "\<dots> \<longleftrightarrow> 2 ^ 53 \<le> n" unfolding c by (simp only: of_int_le_iff)
      finally show ?thesis using True unfolding u_def by simp
    next
      case neq: False
      with False have "e + 1 \<le> 1023" by simp
      then have "(2::real) powi (e + 1) \<le> 2 powi 1023"
        by (intro power_int_increasing) simp_all
      moreover have "(2::real) powi 1023 < 2 powi 1024"
        by (rule power_int_strict_increasing) simp_all
      ultimately have "\<not> 2 powi 1024 \<le> of_int n * u" using r_le by linarith
      with False neq show ?thesis unfolding u_def by blast
    qed
  qed
qed

lemma double_round_overflow:
  assumes "x \<noteq> 0"
  shows "double_round x = None \<longleftrightarrow>
           2 powi 1024 \<le> of_int (round_half_even
               (\<bar>x\<bar> / 2 powi (max (binary_exponent \<bar>x\<bar>) (- 1022) - 52)))
             * (2::real) powi (max (binary_exponent \<bar>x\<bar>) (- 1022) - 52)"
proof -
  from assms have a: "0 < \<bar>x\<bar>" by simp
  show ?thesis
    unfolding double_round_magnitude [OF a, symmetric]
    using assms by (simp add: double_round_def Let_def)
qed

lemma double_round_finite:
  assumes "0 < x" and "x < 2 powi 1023"
  shows "\<exists>p. double_round x = Some p"
proof -
  define e0 where "e0 = binary_exponent x"
  from binary_exponent_bounds [OF assms(1)]
  have lo: "2 powi e0 \<le> x" by (simp add: e0_def)
  have "(2::real) powi e0 < 2 powi 1023" using lo assms(2) by (rule le_less_trans)
  then have "e0 < 1023" by (rule power_int_le_imp_less_exp [rotated]) simp_all
  then show ?thesis
    using assms(1) by (auto simp add: double_round_def Let_def e0_def max_def)
qed

text \<open>
  The rounding of the product is visible in the target length: the double nearest to 0.7
  lies below 0.7, its tenfold is not a double and rounds up to 7; the product of 100 and
  the double nearest to 0.29 stays below 29.
\<close>

lemma target_length_rounds_product:
  "double_round (7 / 10) = Some (3152519739159347 / 4503599627370496)
   \<and> target_length 10 (3152519739159347 / 4503599627370496) = Inr 7
   \<and> \<lfloor>10 * (3152519739159347 / 4503599627370496 :: real)\<rfloor> = 6
   \<and> double_round (29 / 100) = Some (5224175567749775 / 18014398509481984)
   \<and> target_length 100 (5224175567749775 / 18014398509481984) = Inr 28"
  by code_simp

section \<open>Properties of the normaliser\<close>

lemma py_slice_to_nonneg: "0 \<le> k \<Longrightarrow> py_slice_to k xs = take (nat k) xs"
  by (simp add: py_slice_to_def)

lemma padtrim_sample_pad:
  "target_length sf d = Inr tgt \<Longrightarrow> int T < tgt \<Longrightarrow>
   padtrim_sample (Arr2 C T rows) sf d =
     Inr (Arr2 C (nat tgt) (np_pad_right (nat tgt - T) rows))"
  by (simp add: nat_diff_distrib')

lemma padtrim_sample_trim:
  "target_length sf d = Inr tgt \<Longrightarrow> 0 \<le> tgt \<Longrightarrow> tgt \<le> int T \<Longrightarrow>
   padtrim_sample (Arr2 C T rows) sf d =
     Inr (Arr2 C (nat tgt) (map (take (nat tgt)) rows))"
  by (simp add: slice_cols_def py_slice_to_nonneg min_def cong: map_cong)

lemma padtrim_sample_returns:
  "target_length sf d = Inr tgt \<Longrightarrow> \<exists>w. padtrim_sample (Arr2 C T rows) sf d = Inr w"
  by simp

text \<open>
  C5. For a two-dimensional buffer of shape \<open>(C, T)\<close> the normaliser returns a buffer of
  shape exactly \<open>(C, target_length)\<close>: it has \<open>C\<close> rows of \<open>target_length\<close> entries
  each, and entry \<open>(i, j)\<close> is the input's entry when \<open>j < T\<close> and zero otherwise. So a
  short buffer keeps its \<open>T\<close> columns and is zero-padded, and a long one is cut to its
  first \<open>target_length\<close> columns; the channels are unchanged. Here \<open>tgt\<close> is the target
  length that the code computes from the sampling frequency and the duration.
\<close>

theorem padtrim_sample_shape_content:
  assumes wf: "wf_array (Arr2 C T rows)"
    and tgt: "target_length sf d = Inr tgt" and nn: "0 \<le> tgt"
  shows "\<exists>out. padtrim_sample (Arr2 C T rows) sf d = Inr (Arr2 C (nat tgt) out)
           \<and> length out = C
           \<and> (\<forall>i < C. length (out ! i) = nat tgt
                \<and> (\<forall>j < nat tgt. out ! i ! j = (if j < T then rows ! i ! j else 0)))"
proof (cases "int T < tgt")
  case True
  let ?n = "nat tgt"
  from True have lt: "T < ?n" by linarith
  have eq: "padtrim_sample (Arr2 C T rows) sf d = Inr (Arr2 C ?n (np_pad_right (?n - T) rows))"
    using tgt True by (rule padtrim_sample_pad)
  have len: "length (np_pad_right (?n - T) rows) = C"
    using wf by (simp add: np_pad_right_def)
  have cells: "\<forall>i < C. length (np_pad_right (?n - T) rows ! i) = ?n
                 \<and> (\<forall>j < ?n. np_pad_right (?n - T) rows ! i ! j = (if j < T then rows ! i ! j else 0))"
  proof (intro allI impI)
    fix i assume i: "i < C"
    with wf have li: "length (rows ! i) = T" by simp
    from i wf have row: "np_pad_right (?n - T) rows ! i = rows ! i @ replicate (?n - T) 0"
      by (simp add: np_pad_right_def)
    show "length (np_pad_right (?n - T) rows ! i) = ?n
            \<and> (\<forall>j < ?n. np_pad_right (?n - T) rows ! i ! j = (if j < T then rows ! i ! j else 0))"
      using lt li by (simp add: row nth_append)
  qed
  from eq len cells show ?thesis by blast
next
  case False
  let ?n = "nat tgt"
  from False nn have le: "?n \<le> T" by linarith
  from False have ge: "tgt \<le> int T" by linarith
  have eq: "padtrim_sample (Arr2 C T rows) sf d = Inr (Arr2 C ?n (map (take ?n) rows))"
    using tgt nn ge by (rule padtrim_sample_trim)
  have len: "length (map (take ?n) rows) = C"
    using wf by simp
  have cells: "\<forall>i < C. length (map (take ?n) rows ! i) = ?n
                 \<and> (\<forall>j < ?n. map (take ?n) rows ! i ! j = (if j < T then rows ! i ! j else 0))"
  proof (intro allI impI)
    fix i assume i: "i < C"
    with wf have li: "length (rows ! i) = T" by simp
    show "length (map (take ?n) rows ! i) = ?n
            \<and> (\<forall>j < ?n. map (take ?n) rows ! i ! j = (if j < T then rows ! i ! j else 0))"
      using i wf le li by simp
  qed
  from eq len cells show ?thesis by blast
qed

theorem padtrim_sample_shape_content_witness:
  "wf_array (Arr2 2 1 [[5], [7]]) \<and> target_length 3 1 = Inr 3
   \<and> padtrim_sample (Arr2 2 1 [[5], [7]]) 3 1 = Inr (Arr2 2 3 [[5, 0, 0], [7, 0, 0]])
   \<and> (\<exists>out. padtrim_sample (Arr2 2 1 [[5], [7]]) 3 1 = Inr (Arr2 2 (nat 3) out)
         \<and> length out = 2
         \<and> (\<forall>i < 2. length (out ! i) = nat 3
              \<and> (\<forall>j < nat 3. out ! i ! j = (if j < 1 then [[5], [7]] ! i ! j else 0))))"
proof -
  have h1: "wf_array (Arr2 2 1 [[5], [7]])" by simp
  have h2: "target_length 3 1 = Inr 3" by code_simp
  have h3: "(0::int) \<le> 3" by simp
  have v: "padtrim_sample (Arr2 2 1 [[5], [7]]) 3 1 = Inr (Arr2 2 3 [[5, 0, 0], [7, 0, 0]])"
    by code_simp
  show ?thesis
    using h1 h2 v padtrim_sample_shape_content [OF h1 h2 h3] by blast
qed

text \<open>
  C6. For a positive sampling frequency and a positive duration the target length is the
  floor of their product, the product being the double that the multiplication returns;
  the multiplication returns a double (no overflow) whenever the exact product is below
  \<open>2 ^ 1023\<close>. 256 Hz for 2.0 s gives 512, and 250 Hz for 1.003 s, that is for the double
  nearest to 1.003, gives 250.
\<close>

theorem target_length_floor:
  "(0 < sf \<longrightarrow> 0 < d \<longrightarrow> (\<forall>p. double_mul sf d = Some p \<longrightarrow> target_length sf d = Inr \<lfloor>p\<rfloor>))
   \<and> (0 < sf \<longrightarrow> 0 < d \<longrightarrow> sf * d < 2 ^ 1023 \<longrightarrow> (\<exists>p. double_mul sf d = Some p))
   \<and> target_length 256 2 = Inr 512
   \<and> double_round (1003 / 1000) = Some (4517110426252607 / 4503599627370496)
   \<and> target_length 250 (4517110426252607 / 4503599627370496) = Inr 250"
proof -
  have floor_part: "target_length sf d = Inr \<lfloor>p\<rfloor>"
    if "0 < sf" "0 < d" "double_mul sf d = Some p" for p
  proof -
    from that(1,2) have nn: "0 \<le> sf * d" by simp
    from that(3) have r: "double_round (sf * d) = Some p"
      by (simp only: double_mul_def)
    from nn r have "0 \<le> p"
      by (rule double_round_nonneg)
    with that(3) show ?thesis
      by (simp add: target_length_def py_int_def)
  qed
  have finite_part: "\<exists>p. double_mul sf d = Some p"
    if "0 < sf" "0 < d" "sf * d < 2 ^ 1023"
  proof -
    from that(1,2) have pos: "0 < sf * d" by simp
    from that(3) have "sf * d < 2 powi 1023" by (simp only: power_int_numeral)
    with pos show ?thesis
      unfolding double_mul_def by (rule double_round_finite)
  qed
  have ex1: "target_length 256 2 = Inr 512"
    by code_simp
  have ex2: "double_round (1003 / 1000) = Some (4517110426252607 / 4503599627370496)"
    by code_simp
  have ex3: "target_length 250 (4517110426252607 / 4503599627370496) = Inr 250"
    by code_simp
  from floor_part finite_part ex1 ex2 ex3 show ?thesis by blast
qed

theorem target_length_floor_witness:
  "double_mul 256 2 = Some 512 \<and> target_length 256 2 = Inr \<lfloor>512 :: real\<rfloor>"
proof -
  have h1: "(0::real) < 256" by simp
  have h2: "(0::real) < 2" by simp
  have h3: "double_mul 256 2 = Some 512" by code_simp
  from target_length_floor [of 256 2] h1 h2 h3
  have "target_length 256 2 = Inr \<lfloor>512 :: real\<rfloor>" by blast
  with h3 show ?thesis by blast
qed

text \<open>
  C7. Normalisation is idempotent: a well-formed buffer whose time axis already has
  \<open>target_length\<close> entries is returned unchanged, and normalising the result of a
  normalisation returns that result again.
\<close>

theorem padtrim_sample_idempotent:
  assumes wf: "wf_array x"
    and tgt: "target_length sf d = Inr tgt" and nn: "0 \<le> tgt"
  shows "(\<forall>C rows. x = Arr2 C (nat tgt) rows \<longrightarrow> padtrim_sample x sf d = Inr x)
         \<and> (\<forall>y. padtrim_sample x sf d = Inr y \<longrightarrow> padtrim_sample y sf d = Inr y)"
proof -
  let ?n = "nat tgt"
  have fix_point: "padtrim_sample (Arr2 C ?n rows) sf d = Inr (Arr2 C ?n rows)"
    if "\<forall>r \<in> set rows. length r = ?n" for C rows
  proof -
    have same: "map (take ?n) rows = rows"
      using that by (simp add: map_idI)
    have ge: "tgt \<le> int ?n"
      using nn by simp
    show ?thesis
      using padtrim_sample_trim [OF tgt nn ge, of C rows]
      by (simp del: padtrim_sample.simps add: same)
  qed
  have first: "\<forall>C rows. x = Arr2 C ?n rows \<longrightarrow> padtrim_sample x sf d = Inr x"
    using wf fix_point by auto
  have second: "\<forall>y. padtrim_sample x sf d = Inr y \<longrightarrow> padtrim_sample y sf d = Inr y"
  proof (intro allI impI)
    fix y assume y: "padtrim_sample x sf d = Inr y"
    then obtain C T rows where x: "x = Arr2 C T rows"
      by (cases x) auto
    show "padtrim_sample y sf d = Inr y"
    proof (cases "int T < tgt")
      case True
      then have lt: "T < ?n" by linarith
      from y x have yv: "y = Arr2 C ?n (np_pad_right (?n - T) rows)"
        by (simp del: padtrim_sample.simps add: padtrim_sample_pad [OF tgt True])
      have "\<forall>r \<in> set (np_pad_right (?n - T) rows). length r = ?n"
        using wf x lt by (auto simp: np_pad_right_def)
      then show ?thesis
        unfolding yv by (rule fix_point)
    next
      case False
      with nn have le: "?n \<le> T" by linarith
      from False have ge: "tgt \<le> int T" by linarith
      from y x have yv: "y = Arr2 C ?n (map (take ?n) rows)"
        by (simp del: padtrim_sample.simps add: padtrim_sample_trim [OF tgt nn ge])
      have "\<forall>r \<in> set (map (take ?n) rows). length r = ?n"
        using wf x le by auto
      then show ?thesis
        unfolding yv by (rule fix_point)
    qed
  qed
  from first second show ?thesis by blast
qed

theorem padtrim_sample_idempotent_witness:
  "wf_array (Arr2 1 3 [[4, 5, 6]]) \<and> target_length 2 1 = Inr 2
   \<and> padtrim_sample (Arr2 1 3 [[4, 5, 6]]) 2 1 = Inr (Arr2 1 2 [[4, 5]])
   \<and> padtrim_sample (Arr2 1 2 [[4, 5]]) 2 1 = Inr (Arr2 1 2 [[4, 5]])"
proof -
  have h1: "wf_array (Arr2 1 3 [[4, 5, 6]])" by simp
  have h2: "target_length 2 1 = Inr 2" by code_simp
  have h3: "(0::int) \<le> 2" by simp
  have v: "padtrim_sample (Arr2 1 3 [[4, 5, 6]]) 2 1 = Inr (Arr2 1 2 [[4, 5]])"
    by code_simp
  show ?thesis
    using h1 h2 v padtrim_sample_idempotent [OF h1 h2 h3] by simp
qed

section \<open>Properties of the session\<close>

lemma is_iterable_py_len: "is_iterable v \<Longrightarrow> \<exists>n. py_len v = Inr n"
  by (cases v) auto

lemma is_iterable_py_iter: "is_iterable v \<Longrightarrow> \<exists>vs. py_iter v = Inr vs"
  by (cases v) auto

lemma validate_variables_bad:
  "(k, v) \<in> set md \<Longrightarrow> is_iterable v \<Longrightarrow> py_len v \<noteq> Inr n \<Longrightarrow>
   validate_variables md n lv ov = Inl AssertionError"
proof (induction md n lv ov rule: validate_variables.induct)
  case (1 iterations list_variables object_variables)
  then show ?case by simp
next
  case (2 key w rest iterations list_variables object_variables)
  show ?case
  proof (cases "is_iterable w")
    case True
    then obtain l where l: "py_len w = Inr l" using is_iterable_py_len by blast
    show ?thesis
    proof (cases "l = iterations")
      case eq: True
      with 2 True l have "(k, v) \<in> set rest" by auto
      with 2 True l eq show ?thesis by simp
    next
      case False
      with True l show ?thesis by simp
    qed
  next
    case False
    with 2 have "(k, v) \<in> set rest" by auto
    with 2 False show ?thesis by simp
  qed
qed

lemma validate_variables_ok:
  "\<forall>(k, v) \<in> set md. is_iterable v \<longrightarrow> py_len v = Inr n \<Longrightarrow>
   validate_variables md n lv ov =
     Inr (lv @ map fst (filter (\<lambda>(k, v). is_iterable v) md),
          ov @ map fst (filter (\<lambda>(k, v). \<not> is_iterable v) md))"
  by (induction md n lv ov rule: validate_variables.induct) auto

lemma record_one_iteration_not_assert:
  "snd (record_one_iteration self st d rest sf pulled) \<noteq> Inl AssertionError"
proof -
  have a: "np_array pulled \<noteq> Inl AssertionError"
    by (cases pulled) auto
  have b: "padtrim_sample a sf d \<noteq> Inl AssertionError" for a
    by (cases a) (auto simp: target_length_def split: sum.splits option.splits)
  show ?thesis
    using a b by (auto simp: record_one_iteration_def record_eeg_sample_def Let_def
        split: list.splits sum.splits)
qed

lemma record_loop_trials_not_assert:
  "snd (record_loop_trials self st d rest pull is) \<noteq> Raised AssertionError"
proof (induction "is" arbitrary: self)
  case Nil
  then show ?case by simp
next
  case (Cons i "is")
  obtain s1 r where r: "record_one_iteration self st d rest (sampling_frequency self) (pull i) = (s1, r)"
    by (cases "record_one_iteration self st d rest (sampling_frequency self) (pull i)")
  with record_one_iteration_not_assert [of self st d rest "sampling_frequency self" "pull i"]
  have "r \<noteq> Inl AssertionError" by simp
  with r Cons show ?case
    by (auto split: sum.splits option.splits)
qed

lemma extend_list_variables_not_assert:
  "snd (extend_list_variables self md keys) \<noteq> Raised AssertionError"
proof (induction keys arbitrary: self)
  case Nil
  then show ?case by simp
next
  case (Cons key keys)
  have "py_iter v \<noteq> Inl AssertionError" for v by (cases v) auto
  with Cons show ?case
    by (auto split: sum.splits option.splits)
qed

lemma extend_object_variables_not_assert:
  "snd (extend_object_variables self md n keys) \<noteq> Raised AssertionError"
proof (induction keys arbitrary: self)
  case Nil
  then show ?case by simp
next
  case (Cons key keys)
  have "py_mul v n \<noteq> Inl AssertionError" for v by (cases v) auto
  with Cons show ?case
    by (auto split: sum.splits option.splits)
qed

lemma record_eeg_sample_good:
  "st \<noteq> [] \<Longrightarrow> good_capture pulled \<Longrightarrow>
   \<exists>rows. record_eeg_sample st pulled = Inr (Arr2 (length (hd pulled)) (length pulled) rows)"
  by (cases st; cases pulled) (auto simp: record_eeg_sample_def good_capture_def)

lemma record_one_iteration_good:
  assumes "st \<noteq> []" "0 \<le> rest" "good_capture pulled" "target_length sf d = Inr tgt"
  shows "\<exists>w. record_one_iteration self st d rest sf pulled =
           (self\<lparr>events := events self @ [PresentStimuli, EndStimuli]\<rparr>, Inr w)"
proof -
  from assms obtain rows where
    a: "record_eeg_sample st pulled = Inr (Arr2 (length (hd pulled)) (length pulled) rows)"
    using record_eeg_sample_good by blast
  have "\<exists>w. padtrim_sample (Arr2 (length (hd pulled)) (length pulled) rows) sf d = Inr w"
    using assms(4) by (rule padtrim_sample_returns)
  then obtain w where
    w: "padtrim_sample (Arr2 (length (hd pulled)) (length pulled) rows) sf d = Inr w"
    by blast
  show ?thesis
    using assms(2) a w by (simp add: record_one_iteration_def del: padtrim_sample.simps)
qed

lemma record_loop_trials_good:
  assumes "st \<noteq> []" "0 \<le> rest"
  shows "\<forall>i \<in> set is. good_capture (pull i) \<Longrightarrow> samples self ''recordings'' = Some rs \<Longrightarrow>
         target_length (sampling_frequency self) d = Inr tgt \<Longrightarrow>
         \<exists>ws. length ws = length is
           \<and> snd (record_loop_trials self st d rest pull is) = Returned
           \<and> events (fst (record_loop_trials self st d rest pull is)) =
               events self @ concat (map (\<lambda>i. [PresentStimuli, EndStimuli]) is)
           \<and> samples (fst (record_loop_trials self st d rest pull is)) =
               (samples self)(''recordings'' \<mapsto> rs @ map Window ws)"
proof (induction "is" arbitrary: self rs)
  case Nil
  then have t: "(samples self)(''recordings'' \<mapsto> rs @ map Window []) = samples self"
    by (simp add: map_upd_triv)
  have "length ([] :: ndarray list) = length ([] :: nat list)
        \<and> snd (record_loop_trials self st d rest pull []) = Returned
        \<and> events (fst (record_loop_trials self st d rest pull [])) =
            events self @ concat (map (\<lambda>i. [PresentStimuli, EndStimuli]) [])
        \<and> samples (fst (record_loop_trials self st d rest pull [])) =
            (samples self)(''recordings'' \<mapsto> rs @ map Window [])"
    unfolding t by simp
  then show ?case by blast
next
  case (Cons i "is")
  from Cons.prems have gi: "good_capture (pull i)" by simp
  from record_one_iteration_good [OF assms gi Cons.prems(3)] obtain w where
    w: "record_one_iteration self st d rest (sampling_frequency self) (pull i) =
          (self\<lparr>events := events self @ [PresentStimuli, EndStimuli]\<rparr>, Inr w)"
    by blast
  define s where
    "s = self\<lparr>events := events self @ [PresentStimuli, EndStimuli],
                samples := (samples self)(''recordings'' \<mapsto> rs @ [Window w])\<rparr>"
  have step: "record_loop_trials self st d rest pull (i # is) =
                record_loop_trials s st d rest pull is"
    using w Cons.prems(2) by (simp add: s_def)
  have ev: "events s = events self @ [PresentStimuli, EndStimuli]"
    by (simp add: s_def)
  have sa: "samples s = (samples self)(''recordings'' \<mapsto> rs @ [Window w])"
    by (simp add: s_def)
  have "\<forall>i \<in> set is. good_capture (pull i)" using Cons.prems by simp
  moreover have "samples s ''recordings'' = Some (rs @ [Window w])" by (simp add: sa)
  moreover have "target_length (sampling_frequency s) d = Inr tgt"
    using Cons.prems(3) by (simp add: s_def)
  ultimately obtain ws where
    ws: "length ws = length is"
      "snd (record_loop_trials s st d rest pull is) = Returned"
      "events (fst (record_loop_trials s st d rest pull is)) =
         events s @ concat (map (\<lambda>i. [PresentStimuli, EndStimuli]) is)"
      "samples (fst (record_loop_trials s st d rest pull is)) =
         (samples s)(''recordings'' \<mapsto> (rs @ [Window w]) @ map Window ws)"
    using Cons.IH [of s "rs @ [Window w]"] by blast
  have "length (w # ws) = length (i # is)" using ws(1) by simp
  moreover have "snd (record_loop_trials self st d rest pull (i # is)) = Returned"
    unfolding step by (rule ws(2))
  moreover have "events (fst (record_loop_trials self st d rest pull (i # is))) =
      events self @ concat (map (\<lambda>i. [PresentStimuli, EndStimuli]) (i # is))"
    unfolding step ws(3) ev by simp
  moreover have "samples (fst (record_loop_trials self st d rest pull (i # is))) =
      (samples self)(''recordings'' \<mapsto> rs @ map Window (w # ws))"
    unfolding step ws(4) sa by simp
  ultimately show ?case by blast
qed

lemma extend_list_variables_frame:
  "events (fst (extend_list_variables self md keys)) = events self
   \<and> dom (samples (fst (extend_list_variables self md keys))) = dom (samples self)
   \<and> (\<forall>k. k \<notin> set keys \<longrightarrow> samples (fst (extend_list_variables self md keys)) k = samples self k)"
proof (induction keys arbitrary: self)
  case Nil
  then show ?case by simp
next
  case (Cons key keys)
  show ?case
  proof (cases "\<exists>xs v vs. samples self key = Some xs \<and> map_of md key = Some v \<and> py_iter v = Inr vs")
    case True
    then obtain xs v vs where
      h: "samples self key = Some xs" "map_of md key = Some v" "py_iter v = Inr vs"
      by blast
    define s where "s = self\<lparr>samples := (samples self)(key \<mapsto> xs @ map Meta vs)\<rparr>"
    have step: "extend_list_variables self md (key # keys) = extend_list_variables s md keys"
      using h by (simp add: s_def)
    have e: "events s = events self"
      by (simp add: s_def)
    have d: "dom (samples s) = dom (samples self)"
      using h(1) by (auto simp: s_def)
    have f: "\<forall>k. k \<notin> set (key # keys) \<longrightarrow> samples s k = samples self k"
      by (simp add: s_def)
    show ?thesis
      unfolding step using Cons [of s] e d f by simp
  next
    case False
    then have "extend_list_variables self md (key # keys) \<in> {(self, Raised e) | e. True}"
      by (auto split: option.splits sum.splits)
    then show ?thesis by auto
  qed
qed

lemma extend_object_variables_frame:
  "events (fst (extend_object_variables self md n keys)) = events self
   \<and> dom (samples (fst (extend_object_variables self md n keys))) = dom (samples self)
   \<and> (\<forall>k. k \<notin> set keys \<longrightarrow> samples (fst (extend_object_variables self md n keys)) k = samples self k)"
proof (induction keys arbitrary: self)
  case Nil
  then show ?case by simp
next
  case (Cons key keys)
  show ?case
  proof (cases "\<exists>xs v w. samples self key = Some xs \<and> map_of md key = Some v \<and> py_mul v n = Inr w")
    case True
    then obtain xs v w where
      h: "samples self key = Some xs" "map_of md key = Some v" "py_mul v n = Inr w"
      by blast
    define s where "s = self\<lparr>samples := (samples self)(key \<mapsto> xs @ [Meta w])\<rparr>"
    have step: "extend_object_variables self md n (key # keys) = extend_object_variables s md n keys"
      using h by (simp add: s_def)
    have e: "events s = events self"
      by (simp add: s_def)
    have d: "dom (samples s) = dom (samples self)"
      using h(1) by (auto simp: s_def)
    have f: "\<forall>k. k \<notin> set (key # keys) \<longrightarrow> samples s k = samples self k"
      by (simp add: s_def)
    show ?thesis
      unfolding step using Cons [of s] e d f by simp
  next
    case False
    then have "extend_object_variables self md n (key # keys) \<in> {(self, Raised e) | e. True}"
      by (auto split: option.splits sum.splits)
    then show ?thesis by auto
  qed
qed

lemma extend_list_variables_outcome:
  assumes "\<forall>k \<in> set keys. \<exists>v. map_of md k = Some v \<and> is_iterable v"
  shows "((\<forall>k \<in> set keys. samples self k \<noteq> None) \<longrightarrow>
            snd (extend_list_variables self md keys) = Returned)
         \<and> ((\<exists>k \<in> set keys. samples self k = None) \<longrightarrow>
            (\<exists>k' \<in> set keys. samples self k' = None
               \<and> snd (extend_list_variables self md keys) = Raised (KeyError k')))"
  using assms
proof (induction keys arbitrary: self)
  case Nil
  then show ?case by simp
next
  case (Cons key keys)
  show ?case
  proof (cases "samples self key")
    case None
    then show ?thesis by auto
  next
    case (Some xs)
    from Cons.prems obtain v where v: "map_of md key = Some v" "is_iterable v" by auto
    then obtain vs where vs: "py_iter v = Inr vs" using is_iterable_py_iter by blast
    let ?s = "self\<lparr>samples := (samples self)(key \<mapsto> xs @ map Meta vs)\<rparr>"
    have step: "extend_list_variables self md (key # keys) = extend_list_variables ?s md keys"
      using Some v vs by simp
    have same: "samples ?s k = None \<longleftrightarrow> samples self k = None" for k
      using Some by simp
    from Cons.prems have "\<forall>k \<in> set keys. \<exists>v. map_of md k = Some v \<and> is_iterable v" by simp
    from Cons.IH [OF this, of ?s] show ?thesis
      unfolding step same using Some by auto
  qed
qed

lemma py_mul_not_None: "v \<noteq> PNone \<Longrightarrow> \<exists>w. py_mul v n = Inr w"
  by (cases v) auto

lemma extend_object_variables_outcome:
  assumes "\<forall>k \<in> set keys. \<exists>v. map_of md k = Some v \<and> (samples self k \<noteq> None \<longrightarrow> v \<noteq> PNone)"
  shows "((\<forall>k \<in> set keys. samples self k \<noteq> None) \<longrightarrow>
            snd (extend_object_variables self md n keys) = Returned)
         \<and> ((\<exists>k \<in> set keys. samples self k = None) \<longrightarrow>
            (\<exists>k' \<in> set keys. samples self k' = None
               \<and> snd (extend_object_variables self md n keys) = Raised (KeyError k')))"
  using assms
proof (induction keys arbitrary: self)
  case Nil
  then show ?case by simp
next
  case (Cons key keys)
  show ?case
  proof (cases "samples self key")
    case None
    then show ?thesis by auto
  next
    case (Some xs)
    from Cons.prems Some obtain v where v: "map_of md key = Some v" "v \<noteq> PNone" by auto
    then obtain w where w: "py_mul v n = Inr w" using py_mul_not_None by blast
    let ?s = "self\<lparr>samples := (samples self)(key \<mapsto> xs @ [Meta w])\<rparr>"
    have step: "extend_object_variables self md n (key # keys) = extend_object_variables ?s md n keys"
      using Some v w by simp
    have same: "samples ?s k = None \<longleftrightarrow> samples self k = None" for k
      using Some by simp
    from Cons.prems have "\<forall>k \<in> set keys. \<exists>v. map_of md k = Some v
        \<and> (samples ?s k \<noteq> None \<longrightarrow> v \<noteq> PNone)"
      unfolding same by simp
    from Cons.IH [OF this] show ?thesis
      unfolding step same using Some by auto
  qed
qed





section \<open>Claims about the session\<close>

text \<open>
  C1. The claim: a scalar metadata value is appended \<open>iterations\<close> times. The code
  appends the one-element list \<^verbatim>\<open>[value * iterations]\<close>: with the declared field
  \<open>gain\<close>, the value 2 and three iterations the session returns normally and the field
  holds the single element 6, not three copies of 2.
\<close>

theorem record_loop_scalar_single_element:
  "samples (fst (record_loop (init 2 [''gain'']) (Some [0]) [] 3 1 1 [(''gain'', PInt 2)]
                   (\<lambda>i. [[1, 2]]))) ''gain'' = Some [Meta (PInt 6)]
   \<and> snd (record_loop (init 2 [''gain'']) (Some [0]) [] 3 1 1 [(''gain'', PInt 2)]
                   (\<lambda>i. [[1, 2]])) = Returned"
  by code_simp




text \<open>
  C3. The claim: a string such as \<open>rest\<close> is a scalar, accepted whatever \<open>iterations\<close>
  is and repeated once per trial. In the code a string passes
  \<^verbatim>\<open>isinstance(value, Iterable)\<close> and is treated as a list of its characters: with
  five iterations the four characters of \<open>rest\<close> fail the assertion before any trial,
  the recorder unchanged, and with four iterations the call returns normally with the
  four characters as the field's entries.
\<close>

theorem record_loop_string_rejected:
  "record_loop (init 2 [''condition'']) (Some [0]) [] 5 1 1 [(''condition'', PStr ''rest'')]
     (\<lambda>i. [[1, 2]]) = (init 2 [''condition''], Raised AssertionError)
   \<and> snd (record_loop (init 2 [''condition'']) (Some [0]) [] 4 1 1
          [(''condition'', PStr ''rest'')] (\<lambda>i. [[1, 2]])) = Returned
   \<and> samples (fst (record_loop (init 2 [''condition'']) (Some [0]) [] 4 1 1
          [(''condition'', PStr ''rest'')] (\<lambda>i. [[1, 2]]))) ''condition''
       = Some [Meta (PStr ''r''), Meta (PStr ''e''), Meta (PStr ''s''), Meta (PStr ''t'')]"
proof -
  have a: "record_loop (init 2 [''condition'']) (Some [0]) [] 5 1 1
             [(''condition'', PStr ''rest'')] (\<lambda>i. [[1, 2]])
           = (init 2 [''condition''], Raised AssertionError)"
    by (simp add: record_loop_def bind_stream_def)
  have b: "snd (record_loop (init 2 [''condition'']) (Some [0]) [] 4 1 1
          [(''condition'', PStr ''rest'')] (\<lambda>i. [[1, 2]])) = Returned"
    by code_simp
  have c: "samples (fst (record_loop (init 2 [''condition'']) (Some [0]) [] 4 1 1
          [(''condition'', PStr ''rest'')] (\<lambda>i. [[1, 2]]))) ''condition''
       = Some [Meta (PStr ''r''), Meta (PStr ''e''), Meta (PStr ''s''), Meta (PStr ''t'')]"
    by code_simp
  from a b c show ?thesis by blast
qed

text \<open>
  When the assertion fails: exactly when a stream is bound and some iterable value does
  not have \<open>iterations\<close> elements. A value that is not iterable (\<open>None\<close>, a boolean, an
  integer) is never length-checked.
\<close>

lemma record_loop_assertion_iff:
  "snd (record_loop self stream discovered iterations duration rest_duration md pull)
     = Raised AssertionError
   \<longleftrightarrow> bind_stream stream discovered \<noteq> None
       \<and> (\<exists>(k, v) \<in> set md. is_iterable v \<and> py_len v \<noteq> Inr iterations)"
proof (cases "bind_stream stream discovered")
  case None
  then show ?thesis by (simp add: record_loop_def)
next
  case (Some st)
  show ?thesis
  proof (cases "\<exists>(k, v) \<in> set md. is_iterable v \<and> py_len v \<noteq> Inr iterations")
    case True
    then obtain k v where "(k, v) \<in> set md" "is_iterable v" "py_len v \<noteq> Inr iterations"
      by auto
    then have "validate_variables md iterations [] [] = Inl AssertionError"
      by (rule validate_variables_bad)
    with Some True show ?thesis by (simp add: record_loop_def)
  next
    case False
    then have ok: "\<forall>(k, v) \<in> set md. is_iterable v \<longrightarrow> py_len v = Inr iterations"
      by auto
    note v = validate_variables_ok [OF ok, of "[]" "[]"]
    have "snd (record_loop self stream discovered iterations duration rest_duration md pull)
            \<noteq> Raised AssertionError"
      using record_loop_trials_not_assert
              [of "self\<lparr>events := events self @ [SignalStartRecording]\<rparr>" st duration
                  rest_duration pull "[0..<nat iterations]"]
            extend_list_variables_not_assert extend_object_variables_not_assert
      by (simp add: record_loop_def Some v split: prod.splits outcome.splits) (metis snd_conv)
    with False Some show ?thesis by simp
  qed
qed

text \<open>
  C4. When a stream is bound and some iterable metadata value does not have \<open>iterations\<close>
  elements, \<^verbatim>\<open>record_loop\<close> raises the assertion failure and leaves the recorder as
  it was: no trial has run, no hook has been called, no field has changed.
\<close>

theorem record_loop_bad_length_aborts:
  assumes "bind_stream stream discovered = Some st"
    and "(k, v) \<in> set md" and "is_iterable v" and "py_len v \<noteq> Inr iterations"
  shows "record_loop self stream discovered iterations duration rest_duration md pull
           = (self, Raised AssertionError)"
  using assms validate_variables_bad [of k v md iterations "[]" "[]"]
  by (simp add: record_loop_def)

theorem record_loop_bad_length_aborts_witness:
  "record_loop (init 2 [''label'']) None [7] 3 1 1 [(''label'', PList [PInt 1, PInt 2])]
     (\<lambda>i. [[1, 2]]) = (init 2 [''label''], Raised AssertionError)"
proof -
  have h1: "bind_stream None [7] = Some [7]"
    by (simp add: bind_stream_def initiate_stream_def)
  have h2: "(''label'', PList [PInt 1, PInt 2]) \<in> set [(''label'', PList [PInt 1, PInt 2])]"
    by simp
  have h3: "is_iterable (PList [PInt 1, PInt 2])"
    by simp
  have h4: "py_len (PList [PInt 1, PInt 2]) \<noteq> Inr 3"
    by simp
  show ?thesis
    by (rule record_loop_bad_length_aborts [OF h1 h2 h3 h4])
qed

text \<open>
  C8. Called without a stream, when discovery finds none, \<^verbatim>\<open>record_loop\<close> prints its
  message and returns normally; the dataset and the log of hook calls are unchanged.
\<close>

theorem record_loop_no_stream:
  "record_loop self None [] iterations duration rest_duration md pull
     = (self\<lparr>stdout := stdout self @ [''No EEG stream was found.'']\<rparr>, Returned)"
  by (simp add: record_loop_def bind_stream_def initiate_stream_def)

text \<open>
  C9. The claim: a capture of zero samples is legal input to the normaliser. In the code
  \<^verbatim>\<open>np.array([])\<close> has the one-dimensional shape \<open>(0,)\<close>, the unpacking
  \<^verbatim>\<open>C, T = samples.shape\<close> raises \<open>ValueError\<close>, and the trial fails after both
  stimulus hooks have run.
\<close>

theorem capture_empty_fails:
  "record_eeg_sample [0] [] = Inr (Arr1 [])
   \<and> padtrim_sample (Arr1 []) 256 2 = Inl ValueError
   \<and> record_one_iteration (init 256 []) [0] 2 2 256 []
       = ((init 256 [])\<lparr>events := [PresentStimuli, EndStimuli]\<rparr>, Inl ValueError)
   \<and> snd (record_loop (init 256 []) (Some [0]) [] 1 2 2 [] (\<lambda>i. [])) = Raised ValueError
   \<and> samples (fst (record_loop (init 256 []) (Some [0]) [] 1 2 2 [] (\<lambda>i. []))) ''recordings''
       = Some []"
  by (simp add: record_eeg_sample_def record_one_iteration_def init_def record_loop_def
      bind_stream_def)

text \<open>
  C10. A metadata key that the recorder does not have is not noticed by the validation.
  In a session that is valid otherwise (a stream is bound, every capture holds a sample,
  the target length is computed without overflow,
  every iterable value has \<open>iterations\<close> elements, no declared field is given \<open>None\<close>,
  \<open>recordings\<close> is not a metadata key) all trials run
  and are appended to \<open>recordings\<close>, both session hooks are called, and only then the
  call raises \<open>KeyError\<close> for a key that the recorder does not have; that field is still
  absent afterwards.
\<close>

theorem record_loop_undeclared_key:
  assumes bound: "bind_stream stream discovered = Some st" and st: "st \<noteq> []"
    and rest: "0 \<le> rest_duration"
    and caps: "\<forall>i < nat iterations. good_capture (pull i)"
    and target: "target_length (sampling_frequency self) duration = Inr tgt"
    and recs: "samples self ''recordings'' = Some rs"
    and dist: "distinct (map fst md)"
    and valid: "\<forall>(k, v) \<in> set md. is_iterable v \<longrightarrow> py_len v = Inr iterations"
    and nonnone: "\<forall>(k, v) \<in> set md. samples self k \<noteq> None \<longrightarrow> v \<noteq> PNone"
    and norec: "''recordings'' \<notin> fst ` set md"
    and undecl: "(k, v) \<in> set md" "samples self k = None"
  shows "\<exists>k' ws.
           snd (record_loop self stream discovered iterations duration rest_duration md pull)
             = Raised (KeyError k')
         \<and> k' \<in> fst ` set md \<and> samples self k' = None
         \<and> samples (fst (record_loop self stream discovered iterations duration rest_duration
               md pull)) k' = None
         \<and> length ws = nat iterations
         \<and> samples (fst (record_loop self stream discovered iterations duration rest_duration
               md pull)) ''recordings'' = Some (rs @ map Window ws)
         \<and> events (fst (record_loop self stream discovered iterations duration rest_duration
               md pull))
             = events self @ [SignalStartRecording]
                 @ concat (replicate (nat iterations) [PresentStimuli, EndStimuli])
                 @ [SignalEndRecording]"
proof -
  define lv where "lv = map fst (filter (\<lambda>(k, v). is_iterable v) md)"
  define ov where "ov = map fst (filter (\<lambda>(k, v). \<not> is_iterable v) md)"
  define s1 where "s1 = self\<lparr>events := events self @ [SignalStartRecording]\<rparr>"
  define T where "T = record_loop_trials s1 st duration rest_duration pull [0..<nat iterations]"
  define s3 where "s3 = (fst T)\<lparr>events := events (fst T) @ [SignalEndRecording]\<rparr>"
  define L where "L = extend_list_variables s3 md lv"
  define Ob where "Ob = extend_object_variables (fst L) md iterations ov"
  define R where
    "R = record_loop self stream discovered iterations duration rest_duration md pull"
  have v0: "validate_variables md iterations [] [] = Inr (lv, ov)"
    using validate_variables_ok [OF valid, of "[]" "[]"] by (simp add: lv_def ov_def)
  have "\<forall>i \<in> set [0..<nat iterations]. good_capture (pull i)"
    using caps by simp
  moreover have "samples s1 ''recordings'' = Some rs"
    using recs by (simp add: s1_def)
  moreover have "target_length (sampling_frequency s1) duration = Inr tgt"
    using target by (simp add: s1_def)
  ultimately obtain ws where
    ws: "length ws = length [0..<nat iterations]"
      "snd T = Returned"
      "events (fst T) = events s1 @ concat (map (\<lambda>i. [PresentStimuli, EndStimuli]) [0..<nat iterations])"
      "samples (fst T) = (samples s1)(''recordings'' \<mapsto> rs @ map Window ws)"
    unfolding T_def using record_loop_trials_good [OF st rest] by blast
  have len: "length ws = nat iterations" using ws(1) by simp
  have T_eq: "record_loop_trials s1 st duration rest_duration pull [0..<nat iterations]
                = (fst T, Returned)"
    using ws(2) by (simp add: T_def prod_eq_iff)
  have ev3: "events s3 = events self @ [SignalStartRecording]
                 @ concat (replicate (nat iterations) [PresentStimuli, EndStimuli])
                 @ [SignalEndRecording]"
    by (simp add: s3_def ws(3) s1_def map_replicate_const)
  have sa3: "samples s3 = (samples self)(''recordings'' \<mapsto> rs @ map Window ws)"
    by (simp add: s3_def ws(4) s1_def)
  have none3: "samples s3 x = None \<longleftrightarrow> samples self x = None" for x
    using recs by (simp add: sa3)
  have rec3: "samples s3 ''recordings'' = Some (rs @ map Window ws)"
    by (simp add: sa3)
  have lv_sub: "set lv \<subseteq> fst ` set md" and ov_sub: "set ov \<subseteq> fst ` set md"
    by (auto simp: lv_def ov_def)
  have lv_ok: "\<forall>x \<in> set lv. \<exists>w. map_of md x = Some w \<and> is_iterable w"
    using dist by (auto simp: lv_def)
  have ov_ok0: "\<forall>x \<in> set ov. \<exists>w. map_of md x = Some w \<and> (samples self x \<noteq> None \<longrightarrow> w \<noteq> PNone)"
    using dist nonnone by (auto simp: ov_def)
  have k_in: "k \<in> set lv \<or> k \<in> set ov"
    using undecl(1) by (force simp: lv_def ov_def)
  note fl = extend_list_variables_frame [of s3 md lv, folded L_def]
  note fo = extend_object_variables_frame [of "fst L" md iterations ov, folded Ob_def]
  note ol = extend_list_variables_outcome [OF lv_ok, of s3, folded L_def]
  have noneL: "samples (fst L) x = None \<longleftrightarrow> samples s3 x = None" for x
    using fl by (metis domIff)
  have ov_ok: "\<forall>x \<in> set ov. \<exists>w. map_of md x = Some w
                 \<and> (samples (fst L) x \<noteq> None \<longrightarrow> w \<noteq> PNone)"
    using ov_ok0 noneL none3 by simp
  note oo = extend_object_variables_outcome [OF ov_ok, of iterations, folded Ob_def]
  have noneO: "samples (fst Ob) x = None \<longleftrightarrow> samples (fst L) x = None" for x
    using fo by (metis domIff)
  have rec_lv: "''recordings'' \<notin> set lv" and rec_ov: "''recordings'' \<notin> set ov"
    using norec lv_sub ov_sub by auto
  show ?thesis
  proof (cases "\<exists>x \<in> set lv. samples s3 x = None")
    case True
    with ol obtain k' where k': "k' \<in> set lv" "samples s3 k' = None" "snd L = Raised (KeyError k')"
      by blast
    have L_eq: "extend_list_variables s3 md lv = (fst L, Raised (KeyError k'))"
      using k'(3) by (simp add: L_def prod_eq_iff)
    have "R = (fst L, Raised (KeyError k'))"
      unfolding R_def record_loop_def
      using bound v0 T_eq L_eq by (simp add: s1_def s3_def)
    then have R_eq: "R = L"
      using k'(3) by (simp add: prod_eq_iff)
    have "snd R = Raised (KeyError k')" using R_eq k'(3) by simp
    moreover have "k' \<in> fst ` set md" using k'(1) lv_sub by blast
    moreover have "samples self k' = None" using k'(2) none3 by simp
    moreover have "samples (fst R) k' = None" using R_eq noneL k'(2) by simp
    moreover have "samples (fst R) ''recordings'' = Some (rs @ map Window ws)"
      using R_eq fl rec_lv rec3 by simp
    moreover have "events (fst R) = events self @ [SignalStartRecording]
                 @ concat (replicate (nat iterations) [PresentStimuli, EndStimuli])
                 @ [SignalEndRecording]"
      using R_eq fl ev3 by simp
    ultimately show ?thesis using len unfolding R_def by blast
  next
    case False
    with ol have Lret: "snd L = Returned" by auto
    have L_eq: "extend_list_variables s3 md lv = (fst L, Returned)"
      using Lret by (simp add: L_def prod_eq_iff)
    have R_eq: "R = Ob"
      unfolding R_def record_loop_def
      using bound v0 T_eq L_eq by (simp add: s1_def s3_def Ob_def)
    from undecl(2) none3 have "samples s3 k = None" by simp
    with False k_in have "k \<in> set ov" by blast
    moreover have "samples (fst L) k = None" using \<open>samples s3 k = None\<close> noneL by simp
    ultimately obtain k' where
      k': "k' \<in> set ov" "samples (fst L) k' = None" "snd Ob = Raised (KeyError k')"
      using oo by blast
    have "snd R = Raised (KeyError k')" using R_eq k'(3) by simp
    moreover have "k' \<in> fst ` set md" using k'(1) ov_sub by blast
    moreover have "samples self k' = None" using k'(2) noneL none3 by simp
    moreover have "samples (fst R) k' = None" using R_eq noneO k'(2) by simp
    moreover have "samples (fst R) ''recordings'' = Some (rs @ map Window ws)"
      using R_eq fo fl rec_lv rec_ov rec3 by simp
    moreover have "events (fst R) = events self @ [SignalStartRecording]
                 @ concat (replicate (nat iterations) [PresentStimuli, EndStimuli])
                 @ [SignalEndRecording]"
      using R_eq fo fl ev3 by simp
    ultimately show ?thesis using len unfolding R_def by blast
  qed
qed

theorem record_loop_undeclared_key_witness:
  "snd (record_loop (init 2 []) (Some [0]) [] 2 1 1 [(''label'', PList [PInt 1, PInt 2])]
          (\<lambda>i. [[1, 2]])) = Raised (KeyError ''label'')
   \<and> samples (fst (record_loop (init 2 []) (Some [0]) [] 2 1 1
          [(''label'', PList [PInt 1, PInt 2])] (\<lambda>i. [[1, 2]]))) ''label'' = None
   \<and> map_option length (samples (fst (record_loop (init 2 []) (Some [0]) [] 2 1 1
          [(''label'', PList [PInt 1, PInt 2])] (\<lambda>i. [[1, 2]]))) ''recordings'') = Some 2"
proof -
  have h1: "bind_stream (Some [0]) [] = Some [0]"
    by (simp add: bind_stream_def)
  have h2: "[0::nat] \<noteq> []"
    by simp
  have h3: "(0::real) \<le> 1"
    by simp
  have h4: "\<forall>i < nat 2. good_capture ((\<lambda>i. [[1, 2]]) i)"
    by (simp add: good_capture_def)
  have h4b: "target_length (sampling_frequency (init 2 [])) 1 = Inr 2"
    by code_simp
  have h5: "samples (init 2 []) ''recordings'' = Some []"
    by (simp add: init_def)
  have h6: "distinct (map fst [(''label'', PList [PInt 1, PInt 2])])"
    by simp
  have h7: "\<forall>(k, v) \<in> set [(''label'', PList [PInt 1, PInt 2])].
              is_iterable v \<longrightarrow> py_len v = Inr 2"
    by simp
  have h8: "\<forall>(k, v) \<in> set [(''label'', PList [PInt 1, PInt 2])].
              samples (init 2 []) k \<noteq> None \<longrightarrow> v \<noteq> PNone"
    by simp
  have h9: "''recordings'' \<notin> fst ` set [(''label'', PList [PInt 1, PInt 2])]"
    by simp
  have h10: "(''label'', PList [PInt 1, PInt 2]) \<in> set [(''label'', PList [PInt 1, PInt 2])]"
    by simp
  have h11: "samples (init 2 []) ''label'' = None"
    by (simp add: init_def)
  from record_loop_undeclared_key [OF h1 h2 h3 h4 h4b h5 h6 h7 h8 h9 h10 h11]
  obtain k' ws where
    r: "snd (record_loop (init 2 []) (Some [0]) [] 2 1 1 [(''label'', PList [PInt 1, PInt 2])]
              (\<lambda>i. [[1, 2]])) = Raised (KeyError k')"
       "k' \<in> fst ` set [(''label'', PList [PInt 1, PInt 2])]"
       "samples (fst (record_loop (init 2 []) (Some [0]) [] 2 1 1
          [(''label'', PList [PInt 1, PInt 2])] (\<lambda>i. [[1, 2]]))) k' = None"
       "length ws = nat 2"
       "samples (fst (record_loop (init 2 []) (Some [0]) [] 2 1 1
          [(''label'', PList [PInt 1, PInt 2])] (\<lambda>i. [[1, 2]]))) ''recordings''
          = Some ([] @ map Window ws)"
    by blast
  from r(2) have k': "k' = ''label''" by simp
  show ?thesis
    using r(1) r(3) r(4) r(5) unfolding k' by simp
qed

end
